theory Spec2Isabelle
  imports Complex_Main "HOL-Library.Multiset" "HOL-Library.Sublist"
begin

section \<open>Data model of the list view\<close>

text \<open>
  A block of the client-id tree: its \<open>clientId\<close>, its ordered \<open>innerBlocks\<close>, and
  whatever other properties the object carries (opaque to the list view, copied along by
  every object spread \<open>{ ...block }\<close>).
\<close>

datatype 'a block = Block (clientId: string) (props: 'a) (innerBlocks: "'a block list")

text \<open>Observations on a tree: the identities and the nodes, in depth-first order.\<close>

fun treeIds :: "'a block list \<Rightarrow> string list" where
  "treeIds [] = []"
| "treeIds (Block c a inner # rest) = c # treeIds inner @ treeIds rest"

fun treeNodes :: "'a block list \<Rightarrow> 'a block list" where
  "treeNodes [] = []"
| "treeNodes (Block c a inner # rest) = Block c a inner # treeNodes inner @ treeNodes rest"

section \<open>Expansion state\<close>

type_synonym expandedState = "string \<rightharpoonup> bool"

datatype action = Expand string | Collapse string | Other

text \<open>The reducer \<open>expanded\<close>: a spread of the old state with one key overwritten.\<close>

fun expanded :: "expandedState \<Rightarrow> action \<Rightarrow> expandedState" where
  "expanded state (Expand cid) = state(cid \<mapsto> True)"
| "expanded state (Collapse cid) = state(cid \<mapsto> False)"
| "expanded state Other = state"

text \<open>The readers' lookup \<open>expandedState[ clientId ] ?? true\<close>.\<close>

definition isExpandedOf :: "expandedState \<Rightarrow> string \<Rightarrow> bool" where
  "isExpandedOf expandedState cid = (case expandedState cid of None \<Rightarrow> True | Some b \<Rightarrow> b)"

text \<open>
  \<open>countBlocks\<close> and the \<open>reduce\<close> of \<open>countReducer\<close> over the inner blocks, with the
  running count \<open>cnt\<close> as accumulator.
\<close>

fun countBlocks :: "'a block \<Rightarrow> expandedState \<Rightarrow> int"
  and reduceCountReducer :: "expandedState \<Rightarrow> int \<Rightarrow> 'a block list \<Rightarrow> int" where
  "countBlocks (Block c a inner) expandedState =
     (if isExpandedOf expandedState c
      then 1 + reduceCountReducer expandedState 0 inner
      else 1)"
| "reduceCountReducer expandedState cnt [] = cnt"
| "reduceCountReducer expandedState cnt (Block c a inner # rest) =
     reduceCountReducer expandedState
       (if isExpandedOf expandedState c \<and> length inner > 0
        then cnt + countBlocks (Block c a inner) expandedState
        else cnt + 1)
       rest"

text \<open>
  The \<open>isExpanded\<close> of a row in \<open>ListViewBranch\<close>:
  \<open>hasNestedBranch ? expandedState[ clientId ] ?? true : undefined\<close> (\<open>None\<close> is
  \<open>undefined\<close>).
\<close>

definition rowIsExpanded :: "bool \<Rightarrow> expandedState \<Rightarrow> string \<Rightarrow> bool option" where
  "rowIsExpanded hasNestedBranch expandedState cid =
     (if hasNestedBranch then Some (isExpandedOf expandedState cid) else None)"

text \<open>
  The flattened row numbers \<open>ListViewBranch\<close> hands to the rows of one branch:
  \<open>nextPosition\<close> starts at \<open>listPosition\<close> and, from the second block on, grows by
  \<open>countBlocks\<close> of the previous block. \<open>prev\<close> is \<open>filteredBlocks[ index - 1 ]\<close>,
  absent at index 0.
\<close>

fun branchPositions ::
  "expandedState \<Rightarrow> int \<Rightarrow> 'a block option \<Rightarrow> 'a block list \<Rightarrow> int list" where
  "branchPositions expandedState nextPosition prev [] = []"
| "branchPositions expandedState nextPosition prev (b # rest) =
     (let nextPosition' =
        (case prev of None \<Rightarrow> nextPosition
         | Some p \<Rightarrow> nextPosition + countBlocks p expandedState)
      in nextPosition' # branchPositions expandedState nextPosition' (Some b) rest)"

definition listPositions :: "expandedState \<Rightarrow> int \<Rightarrow> 'a block list \<Rightarrow> int list" where
  "listPositions expandedState listPosition blocks =
     branchPositions expandedState listPosition None blocks"

section \<open>Tree indexing\<close>

text \<open>
  \<open>removeItemFromTree\<close>: the \<open>for\<close> loop over \<open>tree\<close>, with the two variables it
  updates, \<open>newTree\<close> and \<open>removeParentId\<close>, as accumulators.
\<close>

fun removeLoop ::
  "'a block list \<Rightarrow> string \<Rightarrow> string \<Rightarrow> 'a block list \<Rightarrow> string \<Rightarrow> 'a block list \<times> string" where
  "removeLoop [] rid parentId newTree removeParentId = (newTree, removeParentId)"
| "removeLoop (Block c a inner # rest) rid parentId newTree removeParentId =
     (if c \<noteq> rid then
        (if length inner > 0 then
           (case removeLoop inner rid c [] [] of
              (innerBlocks', cRemoveParentId) \<Rightarrow>
                removeLoop rest rid parentId (newTree @ [Block c a innerBlocks'])
                  (if cRemoveParentId \<noteq> [] then cRemoveParentId else removeParentId))
         else removeLoop rest rid parentId (newTree @ [Block c a inner]) removeParentId)
      else removeLoop rest rid parentId newTree parentId)"

definition removeItemFromTree :: "'a block list \<Rightarrow> string \<Rightarrow> string \<Rightarrow> 'a block list \<times> string" where
  "removeItemFromTree tree rid parentId = removeLoop tree rid parentId [] []"

text \<open>
  \<open>addItemToTree\<close>: the same loop shape, with \<open>newTree\<close>, \<open>targetIndex\<close> and
  \<open>targetId\<close> as accumulators. The result is \<open>(newTree, targetId, targetIndex)\<close>.
  The source's \<open>else if ( block.clientId !== id )\<close> tests the negation of the first
  condition, so it is the \<open>else\<close> branch.
\<close>

fun addLoop ::
  "'a block list \<Rightarrow> string \<Rightarrow> 'a block \<Rightarrow> bool \<Rightarrow> string \<Rightarrow>
   'a block list \<Rightarrow> int \<Rightarrow> string \<Rightarrow> 'a block list \<times> string \<times> int" where
  "addLoop [] tid item insertAfter parentId newTree targetIndex targetId =
     (newTree, targetId, targetIndex)"
| "addLoop (Block c a inner # rest) tid item insertAfter parentId newTree targetIndex targetId =
     (if c = tid then
        (if insertAfter
         then addLoop rest tid item insertAfter parentId
                (newTree @ [Block c a inner, item]) (int (length newTree) + 1) parentId
         else addLoop rest tid item insertAfter parentId
                (newTree @ [item, Block c a inner]) (int (length newTree)) parentId)
      else
        (if length inner > 0 then
           (case addLoop inner tid item insertAfter c [] (- 1) [] of
              (innerBlocks', childTargetId, childTargetIndex) \<Rightarrow>
                addLoop rest tid item insertAfter parentId (newTree @ [Block c a innerBlocks'])
                  (max targetIndex childTargetIndex)
                  (if childTargetId \<noteq> [] then childTargetId else targetId))
         else addLoop rest tid item insertAfter parentId
                (newTree @ [Block c a inner]) targetIndex targetId))"

definition addItemToTree ::
  "'a block list \<Rightarrow> string \<Rightarrow> 'a block \<Rightarrow> bool \<Rightarrow> string \<Rightarrow> 'a block list \<times> string \<times> int" where
  "addItemToTree tree tid item insertAfter parentId =
     addLoop tree tid item insertAfter parentId [] (- 1) []"

text \<open>
  The other \<open>removeItemFromTree\<close> of the repository (the translate-based list view),
  which returns the new tree only.
\<close>

fun removeLoop2 :: "'a block list \<Rightarrow> string \<Rightarrow> 'a block list \<Rightarrow> 'a block list" where
  "removeLoop2 [] rid newTree = newTree"
| "removeLoop2 (Block c a inner # rest) rid newTree =
     (if c \<noteq> rid then
        (if length inner > 0
         then removeLoop2 rest rid (newTree @ [Block c a (removeLoop2 inner rid [])])
         else removeLoop2 rest rid (newTree @ [Block c a inner]))
      else removeLoop2 rest rid newTree)"

definition removeItemFromTree2 :: "'a block list \<Rightarrow> string \<Rightarrow> 'a block list" where
  "removeItemFromTree2 tree rid = removeLoop2 tree rid []"

section \<open>Drag controller and drop committer\<close>

datatype direction = UP | DOWN

datatype error = TypeError

text \<open>
  A position entry as \<open>moveItem\<close> reads it: \<open>parentId\<close> (\<open>None\<close> is \<open>undefined\<close>,
  what a root row is given) and \<open>clientId\<close>. The ledger \<open>positions\<close> is keyed by
  flattened row number; a missing key is \<open>undefined\<close>.
\<close>

record position =
  parentId :: "string option"
  positionClientId :: string

type_synonym positions = "int \<rightharpoonup> position"

text \<open>The pending placement kept in \<open>lastTarget.current\<close> (\<open>None\<close> is \<open>null\<close>).\<close>

record pending =
  pendingClientId :: string
  originalParent :: string
  targetId :: string
  targetIndex :: int

datatype command = MoveBlocksToPosition "string list" string string int

text \<open>
  The state the two handlers write: the speculative \<open>tree\<close> (\<open>setTree\<close>),
  \<open>lastTarget.current\<close>, the \<open>dropped\<close> flag, the commands dispatched to the store, and
  whether the settling timer has been set.
\<close>

record 'a listView =
  tree :: "'a block list"
  lastTarget :: "pending option"
  dropped :: bool
  dispatched :: "command list"
  timeoutSet :: bool

record 'a moveArgs =
  block :: "'a block"
  translate :: real
  listPosition :: int
  isLastChild :: bool
  isFirstChild :: bool
  velocity :: "real option"

definition ITEM_HEIGHT :: real where
  "ITEM_HEIGHT = 36"

text \<open>
  The statements both deciding branches of \<open>moveItem\<close> run, which differ in the target
  only: remove the dragged block from the canonical tree, add it at the target, record the
  pending placement, publish the new tree.
\<close>

definition decide ::
  "'a block list \<Rightarrow> 'a block \<Rightarrow> string \<Rightarrow> bool \<Rightarrow> 'a listView \<Rightarrow> 'a listView" where
  "decide clientIdsTree blk target insertAfter s =
     (case removeItemFromTree clientIdsTree (clientId blk) [] of
        (treeWithoutDragItem, removeParentId) \<Rightarrow>
          (case addItemToTree treeWithoutDragItem target blk insertAfter [] of
             (newTree, tId, tIndex) \<Rightarrow>
               s\<lparr>lastTarget :=
                    Some \<lparr>pendingClientId = clientId blk, originalParent = removeParentId,
                          targetId = tId, targetIndex = tIndex\<rparr>,
                  tree := newTree\<rparr>))"

text \<open>
  \<open>moveItem\<close>. A missing \<open>velocity\<close> reads as 0. Reading \<open>position.parentId\<close> of an
  undefined entry throws. A string is truthy when it is not empty.
\<close>

definition moveItem ::
  "'a block list \<Rightarrow> positions \<Rightarrow> 'a moveArgs \<Rightarrow> 'a listView \<Rightarrow> error + 'a listView" where
  "moveItem clientIdsTree positions args s =
     (let v = (case velocity args of None \<Rightarrow> 0 | Some x \<Rightarrow> x) in
      if v = 0 then Inr s
      else
        let direction = (if v > 0 then DOWN else UP) in
        if \<bar>translate args\<bar> > ITEM_HEIGHT / 2 then
          (case positions (listPosition args) of
             None \<Rightarrow> Inl TypeError
           | Some position \<Rightarrow>
               let swapSiblings =
                 (case (if direction = DOWN then positions (listPosition args + 1)
                        else positions (listPosition args - 1)) of
                    None \<Rightarrow> Inr s
                  | Some targetPosition \<Rightarrow>
                      if parentId position = parentId targetPosition
                      then Inr (decide clientIdsTree (block args)
                                  (positionClientId targetPosition) (direction = DOWN) s)
                      else Inr s)
               in
                 (case parentId position of
                    None \<Rightarrow> swapSiblings
                  | Some pid \<Rightarrow>
                      if pid \<noteq> [] \<and>
                         ((direction = UP \<and> isFirstChild args) \<or>
                          (direction = DOWN \<and> isLastChild args))
                      then Inr (decide clientIdsTree (block args) pid (direction = DOWN) s)
                      else swapSiblings))
        else Inr s)"

text \<open>\<open>dropItem\<close>: nothing without a pending placement; otherwise one command.\<close>

definition dropItem :: "'a listView \<Rightarrow> 'a listView" where
  "dropItem s =
     (case lastTarget s of
        None \<Rightarrow> s
      | Some t \<Rightarrow>
          s\<lparr>dropped := True,
            lastTarget := None,
            dispatched := dispatched s @
              [MoveBlocksToPosition [pendingClientId t] (originalParent t) (targetId t) (targetIndex t)],
            timeoutSet := True\<rparr>)"

section \<open>Loop-free readings used in the proofs\<close>

text \<open>
  What the two loops build, without the accumulators: \<open>pruned\<close> drops every block whose
  identity is \<open>rid\<close> (with all it contains) at any depth, \<open>inserted\<close> puts \<open>item\<close> next
  to every block with identity \<open>tid\<close> it meets and does not descend into such a block.
  Both are proved equal to the first component of the loops above.
\<close>

fun pruned :: "'a block list \<Rightarrow> string \<Rightarrow> 'a block list" where
  "pruned [] rid = []"
| "pruned (Block c a inner # rest) rid =
     (if c \<noteq> rid then Block c a (pruned inner rid) # pruned rest rid else pruned rest rid)"

fun inserted :: "'a block list \<Rightarrow> string \<Rightarrow> 'a block \<Rightarrow> bool \<Rightarrow> 'a block list" where
  "inserted [] tid item insertAfter = []"
| "inserted (Block c a inner # rest) tid item insertAfter =
     (if c = tid
      then (if insertAfter then [Block c a inner, item] else [item, Block c a inner])
             @ inserted rest tid item insertAfter
      else Block c a (inserted inner tid item insertAfter) # inserted rest tid item insertAfter)"

text \<open>
  The identities of a tree in depth-first order, leaving out every node with identity
  \<open>rid\<close> together with its subtree.
\<close>

fun keptIds :: "'a block list \<Rightarrow> string \<Rightarrow> string list" where
  "keptIds [] rid = []"
| "keptIds (Block c a inner # rest) rid =
     (if c = rid then [] else c # keptIds inner rid) @ keptIds rest rid"

text \<open>
  The target identity a tick of \<open>moveItem\<close> settles on, when it decides: the parent's
  identity when the row escapes its container, the adjacent row's identity when siblings
  swap; \<open>None\<close> when the tick returns without a decision (or throws). \<open>movingDown\<close> is
  \<open>direction === DOWN\<close>.
\<close>

definition moveTarget :: "positions \<Rightarrow> 'a moveArgs \<Rightarrow> string option" where
  "moveTarget positions args =
     (let v = (case velocity args of None \<Rightarrow> 0 | Some x \<Rightarrow> x) in
      if v = 0 \<or> \<not> \<bar>translate args\<bar> > ITEM_HEIGHT / 2 then None
      else
        (case positions (listPosition args) of
           None \<Rightarrow> None
         | Some position \<Rightarrow>
             let swapSiblings =
               (case (if v > 0 then positions (listPosition args + 1)
                      else positions (listPosition args - 1)) of
                  None \<Rightarrow> None
                | Some targetPosition \<Rightarrow>
                    if parentId position = parentId targetPosition
                    then Some (positionClientId targetPosition)
                    else None)
             in
               (case parentId position of
                  None \<Rightarrow> swapSiblings
                | Some pid \<Rightarrow>
                    if pid \<noteq> [] \<and> ((\<not> v > 0 \<and> isFirstChild args) \<or> (v > 0 \<and> isLastChild args))
                    then Some pid
                    else swapSiblings)))"

definition movingDown :: "'a moveArgs \<Rightarrow> bool" where
  "movingDown args = ((case velocity args of None \<Rightarrow> 0 | Some x \<Rightarrow> x) > 0)"

text \<open>
  \<open>adjacentSiblings tree x y\<close>: somewhere in the tree, a block with identity \<open>x\<close> is
  immediately followed, among the children of the same parent, by one with identity \<open>y\<close>.
\<close>

fun adjacentSiblings :: "'a block list \<Rightarrow> string \<Rightarrow> string \<Rightarrow> bool" where
  "adjacentSiblings [] x y = False"
| "adjacentSiblings (Block c a inner # rest) x y =
     ((case rest of [] \<Rightarrow> False | r # _ \<Rightarrow> c = x \<and> clientId r = y)
      \<or> adjacentSiblings inner x y \<or> adjacentSiblings rest x y)"

text \<open>
  A tree with every collapsed block, at any depth, replaced by a leaf of the same
  identity.
\<close>

fun collapsedAsLeaves :: "expandedState \<Rightarrow> 'a block list \<Rightarrow> 'a block list" where
  "collapsedAsLeaves es [] = []"
| "collapsedAsLeaves es (Block c a inner # rest) =
     (if isExpandedOf es c then Block c a (collapsedAsLeaves es inner) else Block c a [])
       # collapsedAsLeaves es rest"

section \<open>Facts about the tree operations\<close>

lemma fst_removeLoop: "fst (removeLoop xs rid p acc rp) = acc @ pruned xs rid"
  by (induction xs rid p acc rp rule: removeLoop.induct) (auto split: prod.splits)

lemma fst_removeItemFromTree: "fst (removeItemFromTree xs rid p) = pruned xs rid"
  by (simp add: removeItemFromTree_def fst_removeLoop)

lemma removeLoop2_pruned: "removeLoop2 xs rid acc = acc @ pruned xs rid"
  by (induction xs rid acc rule: removeLoop2.induct) auto

lemma fst_addLoop:
  "fst (addLoop xs tid item after p acc ti tg) = acc @ inserted xs tid item after"
  by (induction xs tid item after p acc ti tg rule: addLoop.induct) (auto split: prod.splits)

lemma fst_addItemToTree: "fst (addItemToTree xs tid item after p) = inserted xs tid item after"
  by (simp add: addItemToTree_def fst_addLoop)

lemma pruned_absent: "rid \<notin> set (treeIds xs) \<Longrightarrow> pruned xs rid = xs"
  by (induction xs rule: treeIds.induct) auto

lemma inserted_absent: "tid \<notin> set (treeIds xs) \<Longrightarrow> inserted xs tid item after = xs"
  by (induction xs rule: treeIds.induct) auto

lemma snd_removeLoop_absent:
  "rid \<notin> set (treeIds xs) \<Longrightarrow> snd (removeLoop xs rid p acc rp) = rp"
  by (induction xs rid p acc rp rule: removeLoop.induct) (auto split: prod.splits)

lemma treeIds_append: "treeIds (xs @ ys) = treeIds xs @ treeIds ys"
  by (induction xs rule: treeIds.induct) auto

lemma treeIds_Cons: "treeIds (b # xs) = clientId b # treeIds (innerBlocks b) @ treeIds xs"
  by (cases b) simp

lemma treeNodes_id: "b \<in> set (treeNodes xs) \<Longrightarrow> clientId b \<in> set (treeIds xs)"
  by (induction xs rule: treeIds.induct) auto

lemma pruned_not_mem: "rid \<notin> set (treeIds (pruned xs rid))"
  by (induction xs rule: treeIds.induct) auto

lemma pruned_subseq: "subseq (treeIds (pruned xs rid)) (treeIds xs)"
  by (induction xs rule: treeIds.induct)
    (auto intro: subseq_append' list_emb_append_mono simp: subseq_Cons')

lemma treeIds_pruned: "treeIds (pruned xs rid) = keptIds xs rid"
  by (induction xs rule: treeIds.induct) auto

lemma mset_pruned:
  "distinct (treeIds xs) \<Longrightarrow> b \<in> set (treeNodes xs) \<Longrightarrow>
   mset (treeIds (pruned xs (clientId b))) + mset (treeIds [b]) = mset (treeIds xs)"
proof (induction xs rule: treeIds.induct)
  case 1
  then show ?case by simp
next
  case (2 c a inner rest)
  from "2.prems"(1) have d: "c \<notin> set (treeIds inner)" "c \<notin> set (treeIds rest)"
    "distinct (treeIds inner)" "distinct (treeIds rest)"
    "set (treeIds inner) \<inter> set (treeIds rest) = {}"
    by auto
  from "2.prems"(2) consider (here) "b = Block c a inner"
    | (inner) "b \<in> set (treeNodes inner)" | (rest) "b \<in> set (treeNodes rest)"
    by auto
  then show ?case
  proof cases
    case here
    then show ?thesis using d by (simp add: pruned_absent)
  next
    case inner
    then have m: "clientId b \<in> set (treeIds inner)" by (rule treeNodes_id)
    with d have "clientId b \<noteq> c" "clientId b \<notin> set (treeIds rest)" by auto
    then show ?thesis
      using "2.IH"(1)[OF d(3) inner] by (simp add: pruned_absent)
  next
    case rest
    then have m: "clientId b \<in> set (treeIds rest)" by (rule treeNodes_id)
    with d have "clientId b \<noteq> c" "clientId b \<notin> set (treeIds inner)" by auto
    then show ?thesis
      using "2.IH"(2)[OF d(4) rest] by (simp add: pruned_absent)
  qed
qed

lemma mset_inserted:
  "distinct (treeIds xs) \<Longrightarrow> tid \<in> set (treeIds xs) \<Longrightarrow>
   mset (treeIds (inserted xs tid item after)) = mset (treeIds xs) + mset (treeIds [item])"
proof (induction xs rule: treeIds.induct)
  case 1
  then show ?case by simp
next
  case (2 c a inner rest)
  from "2.prems"(1) have d: "c \<notin> set (treeIds inner)" "c \<notin> set (treeIds rest)"
    "distinct (treeIds inner)" "distinct (treeIds rest)"
    "set (treeIds inner) \<inter> set (treeIds rest) = {}"
    by auto
  from "2.prems"(2) consider (here) "tid = c"
    | (inner) "tid \<in> set (treeIds inner)" | (rest) "tid \<in> set (treeIds rest)"
    by auto
  then show ?case
  proof cases
    case here
    then show ?thesis using d
      by (cases after) (simp_all add: inserted_absent treeIds_Cons[of item])
  next
    case inner
    with d have "tid \<noteq> c" "tid \<notin> set (treeIds rest)" by auto
    then show ?thesis
      using "2.IH"(1)[OF d(3) inner] by (simp add: inserted_absent)
  next
    case rest
    with d have "tid \<noteq> c" "tid \<notin> set (treeIds inner)" by auto
    then show ?thesis
      using "2.IH"(2)[OF d(4) rest] by (simp add: inserted_absent)
  qed
qed

lemma set_pruned:
  assumes "distinct (treeIds xs)" "b \<in> set (treeNodes xs)"
  shows "set (treeIds (pruned xs (clientId b))) = set (treeIds xs) - set (treeIds [b])"
    and "distinct (treeIds (pruned xs (clientId b)))"
proof -
  have m: "mset (treeIds (pruned xs (clientId b)) @ treeIds [b]) = mset (treeIds xs)"
    using mset_pruned[OF assms] by simp
  then have d: "distinct (treeIds (pruned xs (clientId b)) @ treeIds [b])"
    using assms(1) by (metis mset_eq_imp_distinct_iff)
  have s: "set (treeIds (pruned xs (clientId b)) @ treeIds [b]) = set (treeIds xs)"
    using m by (rule mset_eq_setD)
  from d show "distinct (treeIds (pruned xs (clientId b)))" by simp
  from d s show "set (treeIds (pruned xs (clientId b))) = set (treeIds xs) - set (treeIds [b])"
    by auto
qed

lemma mset_move:
  assumes "distinct (treeIds xs)" "b \<in> set (treeNodes xs)"
    "tid \<in> set (treeIds xs)" "tid \<notin> set (treeIds [b])"
  shows "mset (treeIds (inserted (pruned xs (clientId b)) tid b after)) = mset (treeIds xs)"
  using mset_inserted[of "pruned xs (clientId b)" tid b after] set_pruned[OF assms(1,2)]
    mset_pruned[OF assms(1,2)] assms(3,4)
  by simp

lemma adjacentSiblings_Cons:
  "adjacentSiblings (b # rest) x y =
     ((case rest of [] \<Rightarrow> False | r # _ \<Rightarrow> clientId b = x \<and> clientId r = y)
      \<or> adjacentSiblings (innerBlocks b) x y \<or> adjacentSiblings rest x y)"
  by (cases b; cases rest) simp_all

lemma inserted_adjacent:
  "tid \<in> set (treeIds xs) \<Longrightarrow>
   (if after then adjacentSiblings (inserted xs tid item after) tid (clientId item)
    else adjacentSiblings (inserted xs tid item after) (clientId item) tid)"
proof (induction xs rule: treeIds.induct)
  case 1
  then show ?case by simp
next
  case (2 c a inner rest)
  show ?case
  proof (cases "c = tid")
    case True
    then show ?thesis by (simp add: adjacentSiblings_Cons[of item])
  next
    case False
    with "2.prems" have "tid \<in> set (treeIds inner) \<or> tid \<in> set (treeIds rest)" by auto
    then show ?thesis using "2.IH" False by (auto split: if_splits)
  qed
qed

section \<open>Facts about a tick of the drag controller\<close>

lemma tree_decide:
  "tree (decide T blk target after s) =
     fst (addItemToTree (fst (removeItemFromTree T (clientId blk) [])) target blk after [])"
  by (simp add: decide_def split: prod.splits)



lemma moveItem_at:
  assumes "velocity args = Some v" "v \<noteq> 0" "\<bar>translate args\<bar> > ITEM_HEIGHT / 2"
    "positions (listPosition args) = Some pos"
  shows "moveItem T positions args s =
    (if (case parentId pos of None \<Rightarrow> False
         | Some pid \<Rightarrow> pid \<noteq> [] \<and> ((\<not> v > 0 \<and> isFirstChild args) \<or> (v > 0 \<and> isLastChild args)))
     then Inr (decide T (block args) (the (parentId pos)) (v > 0) s)
     else (case (if v > 0 then positions (listPosition args + 1)
                 else positions (listPosition args - 1)) of
             None \<Rightarrow> Inr s
           | Some tp \<Rightarrow>
               if parentId pos = parentId tp
               then Inr (decide T (block args) (positionClientId tp) (v > 0) s)
               else Inr s))"
proof (cases "parentId pos")
  case None
  then show ?thesis
    using assms by (simp add: moveItem_def Let_def split: option.split)
next
  case (Some pid)
  then show ?thesis
    using assms by (simp add: moveItem_def Let_def split: option.split)
qed


lemma moveTarget_at:
  assumes "velocity args = Some v" "v \<noteq> 0" "\<bar>translate args\<bar> > ITEM_HEIGHT / 2"
    "positions (listPosition args) = Some pos"
  shows "moveTarget positions args =
    (if (case parentId pos of None \<Rightarrow> False
         | Some pid \<Rightarrow> pid \<noteq> [] \<and> ((\<not> v > 0 \<and> isFirstChild args) \<or> (v > 0 \<and> isLastChild args)))
     then parentId pos
     else (case (if v > 0 then positions (listPosition args + 1)
                 else positions (listPosition args - 1)) of
             None \<Rightarrow> None
           | Some tp \<Rightarrow>
               if parentId pos = parentId tp then Some (positionClientId tp) else None))"
proof (cases "parentId pos")
  case None
  then show ?thesis
    using assms by (simp add: moveTarget_def Let_def split: option.split)
next
  case (Some pid)
  then show ?thesis
    using assms by (simp add: moveTarget_def Let_def split: option.split)
qed

lemma moveTarget_None:
  "velocity args = None \<Longrightarrow> moveTarget positions args = None"
  "velocity args = Some 0 \<Longrightarrow> moveTarget positions args = None"
  "\<not> \<bar>translate args\<bar> > ITEM_HEIGHT / 2 \<Longrightarrow> moveTarget positions args = None"
  "positions (listPosition args) = None \<Longrightarrow> moveTarget positions args = None"
  by (simp_all add: moveTarget_def Let_def)

lemma moveTarget_SomeD:
  assumes "moveTarget positions args = Some t"
  obtains v pos where "velocity args = Some v" "v \<noteq> 0" "\<bar>translate args\<bar> > ITEM_HEIGHT / 2"
    "positions (listPosition args) = Some pos"
proof -
  from assms obtain v where v: "velocity args = Some v"
    by (cases "velocity args") (simp_all add: moveTarget_None)
  with assms have "v \<noteq> 0" using moveTarget_None(2)[of args positions] by auto
  moreover from assms have "\<bar>translate args\<bar> > ITEM_HEIGHT / 2"
    using moveTarget_None(3)[of args positions] by auto
  moreover from assms obtain pos where "positions (listPosition args) = Some pos"
    by (cases "positions (listPosition args)") (simp_all add: moveTarget_None)
  ultimately show thesis using v that by blast
qed

lemma moveItem_moveTarget:
  assumes "moveTarget positions args = Some t"
  shows "moveItem T positions args s = Inr (decide T (block args) t (movingDown args) s)"
proof -
  from assms obtain v pos where h: "velocity args = Some v" "v \<noteq> 0"
    "\<bar>translate args\<bar> > ITEM_HEIGHT / 2" "positions (listPosition args) = Some pos"
    by (rule moveTarget_SomeD)
  have md: "movingDown args = (v > 0)" using h(1) by (simp add: movingDown_def)
  note mi = moveItem_at[where positions = positions and T = T and s = s, OF h]
    and mt = moveTarget_at[where positions = positions, OF h]
  show ?thesis
  proof (cases "case parentId pos of None \<Rightarrow> False
         | Some pid \<Rightarrow> pid \<noteq> [] \<and> ((\<not> v > 0 \<and> isFirstChild args) \<or> (v > 0 \<and> isLastChild args))")
    case True
    with mt assms have "parentId pos = Some t" by simp
    with True mi md show ?thesis by simp
  next
    case False
    show ?thesis
    proof (cases "if v > 0 then positions (listPosition args + 1)
                 else positions (listPosition args - 1)")
      case None
      with False mt assms show ?thesis by simp
    next
      case (Some tp)
      with False mt assms have "parentId pos = parentId tp" "t = positionClientId tp"
        by (simp_all split: if_splits)
      with False Some mi md show ?thesis by simp
    qed
  qed
qed

lemma moveItem_escape:
  assumes "velocity args = Some v" "v \<noteq> 0" "\<bar>translate args\<bar> > ITEM_HEIGHT / 2"
    "positions (listPosition args) = Some pos"
    "parentId pos = Some pid" "pid \<noteq> []"
    "(v < 0 \<and> isFirstChild args) \<or> (v > 0 \<and> isLastChild args)"
  shows "moveItem T positions args s = Inr (decide T (block args) pid (v > 0) s)"
proof -
  from assms(2,7) have "(\<not> v > 0 \<and> isFirstChild args) \<or> (v > 0 \<and> isLastChild args)"
    by auto
  then show ?thesis
    using moveItem_at[where positions = positions and T = T and s = s, OF assms(1-4)] assms(5,6)
    by simp
qed

lemma moveItem_swap:
  assumes "velocity args = Some v" "v \<noteq> 0" "\<bar>translate args\<bar> > ITEM_HEIGHT / 2"
    "positions (listPosition args) = Some pos"
    "\<not> (\<exists>pid. parentId pos = Some pid \<and> pid \<noteq> [] \<and>
          ((v < 0 \<and> isFirstChild args) \<or> (v > 0 \<and> isLastChild args)))"
  shows "moveItem T positions args s =
     (case positions (if v > 0 then listPosition args + 1 else listPosition args - 1) of
        None \<Rightarrow> Inr s
      | Some tp \<Rightarrow>
          if parentId pos = parentId tp
          then Inr (decide T (block args) (positionClientId tp) (v > 0) s)
          else Inr s)"
proof -
  have "\<not> (case parentId pos of None \<Rightarrow> False
         | Some pid \<Rightarrow> pid \<noteq> [] \<and> ((\<not> v > 0 \<and> isFirstChild args) \<or> (v > 0 \<and> isLastChild args)))"
    using assms(2,5) by (cases "parentId pos") auto
  then show ?thesis
    using moveItem_at[where positions = positions and T = T and s = s, OF assms(1-4)]
    by (simp add: if_distrib[of positions])
qed


section \<open>Facts about the row numbering and the expansion state\<close>

lemma countBlocks_collapsed: "es (clientId b) = Some False \<Longrightarrow> countBlocks b es = 1"
  by (cases b) (simp add: isExpandedOf_def)

lemma length_branchPositions: "length (branchPositions es n prev xs) = length xs"
  by (induction xs arbitrary: n prev) (simp_all add: Let_def)

lemma branchPositions_nth:
  "i < length xs \<Longrightarrow>
   branchPositions es n prev xs ! i =
     n + (case prev of None \<Rightarrow> 0 | Some p \<Rightarrow> countBlocks p es)
       + sum_list (take i (map (\<lambda>b. countBlocks b es) xs))"
proof (induction xs arbitrary: n prev i)
  case Nil
  then show ?case by simp
next
  case (Cons b rest)
  show ?case
  proof (cases i)
    case 0
    then show ?thesis by (simp add: Let_def split: option.split)
  next
    case (Suc j)
    with Cons.prems have "j < length rest" by simp
    from Cons.IH[OF this] Suc show ?thesis
      by (simp add: Let_def split: option.split)
  qed
qed

lemma listPositions_nth:
  "i < length xs \<Longrightarrow>
   listPositions es lp xs ! i = lp + sum_list (take i (map (\<lambda>b. countBlocks b es) xs))"
  by (simp add: listPositions_def branchPositions_nth)

lemma listPositions_cong:
  assumes "map (\<lambda>b. countBlocks b es) xs = map (\<lambda>b. countBlocks b es) ys"
  shows "listPositions es lp xs = listPositions es lp ys"
proof (rule nth_equalityI)
  from assms have "length xs = length ys" by (rule map_eq_imp_length_eq)
  then show l: "length (listPositions es lp xs) = length (listPositions es lp ys)"
    by (simp add: listPositions_def length_branchPositions)
  fix i assume "i < length (listPositions es lp xs)"
  then have "i < length xs" "i < length ys"
    using \<open>length xs = length ys\<close> by (simp_all add: listPositions_def length_branchPositions)
  then show "listPositions es lp xs ! i = listPositions es lp ys ! i"
    using assms by (simp add: listPositions_nth)
qed

lemma reduce_collapsed_leaf:
  "es (clientId b) = Some False \<Longrightarrow>
   reduceCountReducer es cnt (pre @ b # post) = reduceCountReducer es cnt (pre @ Block c a [] # post)"
proof (induction pre arbitrary: cnt)
  case Nil
  then show ?case by (cases b) (simp add: isExpandedOf_def)
next
  case (Cons x pre)
  then show ?case by (cases x) simp
qed

lemma length_collapsedAsLeaves: "length (collapsedAsLeaves es xs) = length xs"
  by (induction es xs rule: collapsedAsLeaves.induct) simp_all

lemma count_collapsedAsLeaves:
  "countBlocks (b :: 'a block) es =
     countBlocks (Block (clientId b) (props b) (collapsedAsLeaves es (innerBlocks b))) es"
  "reduceCountReducer es cnt (xs :: 'a block list) =
     reduceCountReducer es cnt (collapsedAsLeaves es xs)"
proof (induction b es and es cnt xs rule: countBlocks_reduceCountReducer.induct)
  case (1 c a inner expandedState)
  then show ?case by simp
next
  case (2 expandedState cnt)
  then show ?case by simp
next
  case (3 expandedState cnt c a inner rest)
  then show ?case
    by (simp add: length_collapsedAsLeaves del: countBlocks.simps)
qed

lemma map_count_collapsedAsLeaves:
  "map (\<lambda>b. countBlocks b es) (collapsedAsLeaves es xs) = map (\<lambda>b. countBlocks b es) xs"
  by (induction es xs rule: collapsedAsLeaves.induct)
    (simp_all add: count_collapsedAsLeaves(2)[symmetric])

lemma dom_expanded: "dom st \<subseteq> dom (expanded st act)"
  by (cases act) auto

lemma dom_foldl_expanded: "dom st \<subseteq> dom (foldl expanded st acts)"
proof (induction acts arbitrary: st)
  case Nil
  then show ?case by simp
next
  case (Cons act acts)
  have "dom st \<subseteq> dom (expanded st act)" by (rule dom_expanded)
  also have "\<dots> \<subseteq> dom (foldl expanded (expanded st act) acts)" by (rule Cons.IH)
  finally show ?case by simp
qed

lemma foldl_expanded_other:
  "Expand other \<notin> set acts \<Longrightarrow> Collapse other \<notin> set acts \<Longrightarrow>
   foldl expanded st acts other = st other"
proof (induction acts arbitrary: st)
  case Nil
  then show ?case by simp
next
  case (Cons act acts)
  then have "expanded st act other = st other" by (cases act) auto
  with Cons show ?case by simp
qed

section \<open>Removing an identity\<close>

text \<open>
  C6. Removing an identity that occurs nowhere in the tree returns the tree as it was,
  every node in place, together with the empty string as the parent identity, whatever
  \<open>parentId\<close> the call was given.
\<close>

theorem remove_absent_unchanged:
  "rid \<notin> set (treeIds T) \<Longrightarrow> removeItemFromTree T rid p = (T, [])"
proof -
  assume a: "rid \<notin> set (treeIds T)"
  have "fst (removeItemFromTree T rid p) = T"
    using a by (simp add: fst_removeItemFromTree pruned_absent)
  moreover have "snd (removeItemFromTree T rid p) = []"
    using a by (simp add: removeItemFromTree_def snd_removeLoop_absent)
  ultimately show ?thesis by (simp add: prod_eq_iff)
qed

theorem remove_absent_unchanged_witness:
  "''Z'' \<notin> set (treeIds [Block ''A'' () [Block ''B'' () [], Block ''C'' () []], Block ''D'' () []])
   \<and> removeItemFromTree [Block ''A'' () [Block ''B'' () [], Block ''C'' () []], Block ''D'' () []]
        ''Z'' [] =
      ([Block ''A'' () [Block ''B'' () [], Block ''C'' () []], Block ''D'' () []], [])"
  using remove_absent_unchanged
    [of "''Z''" "[Block ''A'' () [Block ''B'' () [], Block ''C'' () []], Block ''D'' () []]" "[]"]
  by simp

text \<open>
  C10, as the code has it. The tree returned by either \<open>removeItemFromTree\<close> holds no
  node with the removed identity, at any depth; its identities are those of the input in
  the same relative order, leaving out each node that carries the removed identity and
  everything inside such a node. The two variants return the same tree.
\<close>

theorem remove_excludes_all_occurrences:
  "rid \<notin> set (treeIds (fst (removeItemFromTree T rid p)))
   \<and> subseq (treeIds (fst (removeItemFromTree T rid p))) (treeIds T)
   \<and> treeIds (fst (removeItemFromTree T rid p)) = keptIds T rid
   \<and> removeItemFromTree2 T rid = fst (removeItemFromTree T rid p)"
proof (intro conjI)
  show "rid \<notin> set (treeIds (fst (removeItemFromTree T rid p)))"
    by (simp only: fst_removeItemFromTree pruned_not_mem not_False_eq_True)
  show "subseq (treeIds (fst (removeItemFromTree T rid p))) (treeIds T)"
    by (simp only: fst_removeItemFromTree pruned_subseq)
  show "treeIds (fst (removeItemFromTree T rid p)) = keptIds T rid"
    by (simp only: fst_removeItemFromTree treeIds_pruned)
  show "removeItemFromTree2 T rid = fst (removeItemFromTree T rid p)"
    by (simp add: fst_removeItemFromTree removeItemFromTree2_def removeLoop2_pruned)
qed

theorem remove_excludes_all_occurrences_witness:
  "treeIds (fst (removeItemFromTree
       [Block ''A'' () [Block ''X'' () []], Block ''X'' () [Block ''B'' () []], Block ''C'' () []]
       ''X'' [])) = [''A'', ''C'']
   \<and> removeItemFromTree2
       [Block ''A'' () [Block ''X'' () []], Block ''X'' () [Block ''B'' () []], Block ''C'' () []]
       ''X'' = [Block ''A'' () [], Block ''C'' () []]"
  using remove_excludes_all_occurrences
    [of "''X''"
        "[Block ''A'' () [Block ''X'' () []], Block ''X'' () [Block ''B'' () []], Block ''C'' () []]"
        "[]"]
  by (simp add: removeItemFromTree_def)

text \<open>
  A node with another identity that lies inside the removed node is not preserved:
  removing \<open>A\<close> from the tree \<open>[A[B]]\<close> loses \<open>B\<close> as well.
\<close>

theorem remove_drops_descendants_counterexample:
  "''B'' \<in> set (treeIds [Block ''A'' () [Block ''B'' () []]]) \<and> ''B'' \<noteq> ''A''
   \<and> ''B'' \<notin> set (treeIds (fst (removeItemFromTree [Block ''A'' () [Block ''B'' () []]] ''A'' [])))
   \<and> ''B'' \<notin> set (treeIds (removeItemFromTree2 [Block ''A'' () [Block ''B'' () []]] ''A''))"
  by (simp add: removeItemFromTree_def removeItemFromTree2_def)

section \<open>Moves rearrange nodes\<close>

text \<open>
  C2, as the code has it. In a tree with pairwise distinct identities, removing a node
  and adding it back next to another identity of the tree that lies outside the node's
  own subtree gives a tree with the same multiset of identities. With the removed
  identity itself as the target, \<open>addItemToTree\<close> finds no target in the tree left by
  \<open>removeItemFromTree\<close> and returns that tree as it is.
\<close>

theorem add_after_remove_same_identities:
  assumes "distinct (treeIds T)" and "node \<in> set (treeNodes T)"
    and "tid \<in> set (treeIds T)" and "tid \<notin> set (treeIds [node])"
  shows "mset (treeIds (fst (addItemToTree (fst (removeItemFromTree T (clientId node) p))
                               tid node after q))) = mset (treeIds T)
       \<and> fst (addItemToTree (fst (removeItemFromTree T (clientId node) p))
                (clientId node) node after q) = fst (removeItemFromTree T (clientId node) p)"
proof
  show "mset (treeIds (fst (addItemToTree (fst (removeItemFromTree T (clientId node) p))
                               tid node after q))) = mset (treeIds T)"
    using mset_move[OF assms, of after]
    by (simp add: fst_addItemToTree fst_removeItemFromTree)
  show "fst (addItemToTree (fst (removeItemFromTree T (clientId node) p))
                (clientId node) node after q) = fst (removeItemFromTree T (clientId node) p)"
    by (simp add: fst_addItemToTree fst_removeItemFromTree inserted_absent pruned_not_mem)
qed

theorem add_after_remove_same_identities_witness:
  "distinct (treeIds [Block ''A'' () [Block ''B'' () [], Block ''C'' () []], Block ''D'' () []])
   \<and> Block ''C'' () []
       \<in> set (treeNodes [Block ''A'' () [Block ''B'' () [], Block ''C'' () []], Block ''D'' () []])
   \<and> ''A'' \<in> set (treeIds [Block ''A'' () [Block ''B'' () [], Block ''C'' () []], Block ''D'' () []])
   \<and> ''A'' \<notin> set (treeIds [Block ''C'' () []])
   \<and> fst (addItemToTree
        (fst (removeItemFromTree
           [Block ''A'' () [Block ''B'' () [], Block ''C'' () []], Block ''D'' () []] ''C'' []))
        ''A'' (Block ''C'' () []) True [])
      = [Block ''A'' () [Block ''B'' () []], Block ''C'' () [], Block ''D'' () []]
   \<and> mset (treeIds (fst (addItemToTree
        (fst (removeItemFromTree
           [Block ''A'' () [Block ''B'' () [], Block ''C'' () []], Block ''D'' () []] ''C'' []))
        ''A'' (Block ''C'' () []) True [])))
      = mset (treeIds [Block ''A'' () [Block ''B'' () [], Block ''C'' () []], Block ''D'' () []])"
proof -
  have h: "distinct (treeIds [Block ''A'' () [Block ''B'' () [], Block ''C'' () []], Block ''D'' () []])"
    "Block ''C'' () []
       \<in> set (treeNodes [Block ''A'' () [Block ''B'' () [], Block ''C'' () []], Block ''D'' () []])"
    "''A'' \<in> set (treeIds [Block ''A'' () [Block ''B'' () [], Block ''C'' () []], Block ''D'' () []])"
    "''A'' \<notin> set (treeIds [Block ''C'' () []])"
    by simp_all
  show ?thesis
    using h add_after_remove_same_identities[OF h, of "[]" True "[]"]
    by (simp add: removeItemFromTree_def addItemToTree_def)
qed

text \<open>
  With the removed identity as the insertion target the node is lost: for the tree
  \<open>[A]\<close>, removing \<open>A\<close> and adding it at \<open>A\<close> gives the empty tree.
\<close>

theorem add_at_removed_identity_counterexample:
  "''A'' \<in> set (treeIds [Block ''A'' () []])
   \<and> Block ''A'' () [] \<in> set (treeNodes [Block ''A'' () []])
   \<and> fst (addItemToTree (fst (removeItemFromTree [Block ''A'' () []] ''A'' []))
            ''A'' (Block ''A'' () []) True []) = []
   \<and> mset (treeIds (fst (addItemToTree (fst (removeItemFromTree [Block ''A'' () []] ''A'' []))
            ''A'' (Block ''A'' () []) True [])))
      \<noteq> mset (treeIds [Block ''A'' () []])"
  by (simp add: removeItemFromTree_def addItemToTree_def)

text \<open>
  C1, as the code has it. Let the canonical tree have pairwise distinct identities, the
  dragged block be one of its nodes, and the target the tick settles on be an identity of
  the tree outside the dragged block's own subtree. Then \<open>moveItem\<close> publishes, through
  \<open>setTree\<close>, the tree obtained by removing the dragged identity and adding the block at
  the target, and that tree has the same multiset of identities as the canonical tree.
\<close>

theorem moveItem_candidate_same_identities:
  assumes "distinct (treeIds T)" and "block args \<in> set (treeNodes T)"
    and "moveTarget positions args = Some t"
    and "t \<in> set (treeIds T)" and "t \<notin> set (treeIds [block args])"
  shows "\<exists>s'. moveItem T positions args s = Inr s'
           \<and> tree s' = fst (addItemToTree (fst (removeItemFromTree T (clientId (block args)) []))
                              t (block args) (movingDown args) [])
           \<and> mset (treeIds (tree s')) = mset (treeIds T)"
  using moveItem_moveTarget[OF assms(3), of T s] mset_move[OF assms(1,2,4,5), of "movingDown args"]
  by (simp add: tree_decide fst_addItemToTree fst_removeItemFromTree)

theorem moveItem_candidate_same_identities_witness:
  "moveTarget
     (map_of [(0, \<lparr>parentId = None, positionClientId = ''A''\<rparr>),
              (1, \<lparr>parentId = Some ''A'', positionClientId = ''B''\<rparr>),
              (2, \<lparr>parentId = Some ''A'', positionClientId = ''C''\<rparr>),
              (3, \<lparr>parentId = None, positionClientId = ''D''\<rparr>)])
     \<lparr>block = Block ''C'' () [], translate = 20, listPosition = 2, isLastChild = True,
      isFirstChild = False, velocity = Some 1\<rparr> = Some ''A''
   \<and> (\<exists>s'. moveItem [Block ''A'' () [Block ''B'' () [], Block ''C'' () []], Block ''D'' () []]
       (map_of [(0, \<lparr>parentId = None, positionClientId = ''A''\<rparr>),
                (1, \<lparr>parentId = Some ''A'', positionClientId = ''B''\<rparr>),
                (2, \<lparr>parentId = Some ''A'', positionClientId = ''C''\<rparr>),
                (3, \<lparr>parentId = None, positionClientId = ''D''\<rparr>)])
       \<lparr>block = Block ''C'' () [], translate = 20, listPosition = 2, isLastChild = True,
        isFirstChild = False, velocity = Some 1\<rparr>
       \<lparr>tree = [], lastTarget = None, dropped = False, dispatched = [], timeoutSet = False\<rparr>
       = Inr s'
     \<and> tree s' = [Block ''A'' () [Block ''B'' () []], Block ''C'' () [], Block ''D'' () []]
     \<and> mset (treeIds (tree s'))
        = mset (treeIds [Block ''A'' () [Block ''B'' () [], Block ''C'' () []], Block ''D'' () []]))"
proof -
  have h: "distinct (treeIds [Block ''A'' () [Block ''B'' () [], Block ''C'' () []], Block ''D'' () []])"
    "block \<lparr>block = Block ''C'' () [], translate = 20, listPosition = 2, isLastChild = True,
        isFirstChild = False, velocity = Some 1\<rparr>
       \<in> set (treeNodes [Block ''A'' () [Block ''B'' () [], Block ''C'' () []], Block ''D'' () []])"
    "moveTarget
     (map_of [(0, \<lparr>parentId = None, positionClientId = ''A''\<rparr>),
              (1, \<lparr>parentId = Some ''A'', positionClientId = ''B''\<rparr>),
              (2, \<lparr>parentId = Some ''A'', positionClientId = ''C''\<rparr>),
              (3, \<lparr>parentId = None, positionClientId = ''D''\<rparr>)])
     \<lparr>block = Block ''C'' () [], translate = 20, listPosition = 2, isLastChild = True,
      isFirstChild = False, velocity = Some 1\<rparr> = Some ''A''"
    "''A'' \<in> set (treeIds [Block ''A'' () [Block ''B'' () [], Block ''C'' () []], Block ''D'' () []])"
    "''A'' \<notin> set (treeIds [block \<lparr>block = Block ''C'' () [], translate = 20, listPosition = 2,
        isLastChild = True, isFirstChild = False, velocity = Some 1\<rparr>])"
    by (simp_all add: moveTarget_def ITEM_HEIGHT_def)
  show ?thesis
    using h(3) moveItem_candidate_same_identities[OF h,
        of "\<lparr>tree = [], lastTarget = None, dropped = False, dispatched = [], timeoutSet = False\<rparr>"]
    by (simp add: removeItemFromTree_def addItemToTree_def movingDown_def)
qed

text \<open>
  Presence of both identities is not enough. In the tree \<open>[A[B]]\<close> with a ledger whose
  entry after the row of \<open>A\<close> names \<open>B\<close> as a root row (an entry left from an earlier
  render), dragging \<open>A\<close> down settles on \<open>B\<close>, which goes away with \<open>A\<close>; the tree
  published is empty.
\<close>

theorem moveItem_target_inside_dragged_counterexample:
  "''A'' \<in> set (treeIds [Block ''A'' () [Block ''B'' () []]])
   \<and> ''B'' \<in> set (treeIds [Block ''A'' () [Block ''B'' () []]])
   \<and> moveTarget
       (map_of [(0, \<lparr>parentId = None, positionClientId = ''A''\<rparr>),
                (1, \<lparr>parentId = None, positionClientId = ''B''\<rparr>)])
       \<lparr>block = Block ''A'' () [Block ''B'' () []], translate = 20, listPosition = 0,
        isLastChild = True, isFirstChild = True, velocity = Some 1\<rparr> = Some ''B''
   \<and> moveItem [Block ''A'' () [Block ''B'' () []]]
       (map_of [(0, \<lparr>parentId = None, positionClientId = ''A''\<rparr>),
                (1, \<lparr>parentId = None, positionClientId = ''B''\<rparr>)])
       \<lparr>block = Block ''A'' () [Block ''B'' () []], translate = 20, listPosition = 0,
        isLastChild = True, isFirstChild = True, velocity = Some 1\<rparr>
       \<lparr>tree = [Block ''A'' () [Block ''B'' () []]], lastTarget = None, dropped = False,
        dispatched = [], timeoutSet = False\<rparr>
     = Inr \<lparr>tree = [],
            lastTarget = Some \<lparr>pendingClientId = ''A'', originalParent = [], targetId = [],
                               targetIndex = - 1\<rparr>,
            dropped = False, dispatched = [], timeoutSet = False\<rparr>
   \<and> mset (treeIds ([] :: unit block list)) \<noteq> mset (treeIds [Block ''A'' () [Block ''B'' () []]])"
  by (simp add: moveTarget_def moveItem_def ITEM_HEIGHT_def decide_def removeItemFromTree_def
      addItemToTree_def)

section \<open>Decisions of the drag controller\<close>

text \<open>
  C3, as the code has it. On a tick with nonzero velocity \<open>v\<close> whose translation passes
  the threshold, with \<open>pos\<close> the ledger entry of the dragged row: when the entry's
  \<open>parentId\<close> is a non-empty identity and the row is the first child moving up or the
  last child moving down, \<open>moveItem\<close> decides with that identity as the target. If the
  identity is in the tree once the dragged block is removed, the dragged block sits
  immediately after it (moving down) or immediately before it (moving up) in the tree
  published; if it is not, the tree published is the tree without the dragged block. In
  every other case the tick takes the sibling path: nothing changes unless the adjacent
  row in the drag direction has an entry with the same \<open>parentId\<close>, and then that row is
  the target. That is so in particular for a root row, whose \<open>parentId\<close> is undefined or
  empty.
\<close>

theorem escape_to_parent_fires_iff:
  assumes "velocity args = Some v" and "v \<noteq> 0" and "\<bar>translate args\<bar> > ITEM_HEIGHT / 2"
    and "positions (listPosition args) = Some pos"
  shows "(\<forall>pid. parentId pos = Some pid \<and> pid \<noteq> [] \<and>
            ((v < 0 \<and> isFirstChild args) \<or> (v > 0 \<and> isLastChild args)) \<longrightarrow>
            moveItem T positions args s = Inr (decide T (block args) pid (v > 0) s)
            \<and> (pid \<in> set (treeIds (fst (removeItemFromTree T (clientId (block args)) []))) \<longrightarrow>
                 (if v > 0
                  then adjacentSiblings (tree (decide T (block args) pid (v > 0) s))
                         pid (clientId (block args))
                  else adjacentSiblings (tree (decide T (block args) pid (v > 0) s))
                         (clientId (block args)) pid))
            \<and> (pid \<notin> set (treeIds (fst (removeItemFromTree T (clientId (block args)) []))) \<longrightarrow>
                 tree (decide T (block args) pid (v > 0) s)
                   = fst (removeItemFromTree T (clientId (block args)) [])))
       \<and> (\<not> (\<exists>pid. parentId pos = Some pid \<and> pid \<noteq> [] \<and>
            ((v < 0 \<and> isFirstChild args) \<or> (v > 0 \<and> isLastChild args))) \<longrightarrow>
            moveItem T positions args s =
              (case positions (if v > 0 then listPosition args + 1 else listPosition args - 1) of
                None \<Rightarrow> Inr s
              | Some tp \<Rightarrow>
                  if parentId pos = parentId tp
                  then Inr (decide T (block args) (positionClientId tp) (v > 0) s)
                  else Inr s))
       \<and> (parentId pos = None \<or> parentId pos = Some [] \<longrightarrow>
            moveItem T positions args s =
              (case positions (if v > 0 then listPosition args + 1 else listPosition args - 1) of
                None \<Rightarrow> Inr s
              | Some tp \<Rightarrow>
                  if parentId pos = parentId tp
                  then Inr (decide T (block args) (positionClientId tp) (v > 0) s)
                  else Inr s))"
proof -
  have fires: "moveItem T positions args s = Inr (decide T (block args) pid (v > 0) s)"
    if "parentId pos = Some pid" "pid \<noteq> []"
      "(v < 0 \<and> isFirstChild args) \<or> (v > 0 \<and> isLastChild args)" for pid
    using assms that by (rule moveItem_escape)
  have placed: "if v > 0
                  then adjacentSiblings (tree (decide T (block args) pid (v > 0) s))
                         pid (clientId (block args))
                  else adjacentSiblings (tree (decide T (block args) pid (v > 0) s))
                         (clientId (block args)) pid"
    if "pid \<in> set (treeIds (fst (removeItemFromTree T (clientId (block args)) [])))" for pid
    using inserted_adjacent[of pid "pruned T (clientId (block args))" "v > 0" "block args"] that
    by (cases "v > 0") (simp_all add: tree_decide fst_addItemToTree fst_removeItemFromTree)
  have lost: "tree (decide T (block args) pid (v > 0) s)
                   = fst (removeItemFromTree T (clientId (block args)) [])"
    if "pid \<notin> set (treeIds (fst (removeItemFromTree T (clientId (block args)) [])))" for pid
    using that
    by (simp add: tree_decide fst_addItemToTree fst_removeItemFromTree inserted_absent)
  have quiet: "moveItem T positions args s =
              (case positions (if v > 0 then listPosition args + 1 else listPosition args - 1) of
                None \<Rightarrow> Inr s
              | Some tp \<Rightarrow>
                  if parentId pos = parentId tp
                  then Inr (decide T (block args) (positionClientId tp) (v > 0) s)
                  else Inr s)"
    if "\<not> (\<exists>pid. parentId pos = Some pid \<and> pid \<noteq> [] \<and>
            ((v < 0 \<and> isFirstChild args) \<or> (v > 0 \<and> isLastChild args)))"
    using assms that by (rule moveItem_swap)
  have root: "moveItem T positions args s =
              (case positions (if v > 0 then listPosition args + 1 else listPosition args - 1) of
                None \<Rightarrow> Inr s
              | Some tp \<Rightarrow>
                  if parentId pos = parentId tp
                  then Inr (decide T (block args) (positionClientId tp) (v > 0) s)
                  else Inr s)"
    if "parentId pos = None \<or> parentId pos = Some []"
    using that by (intro quiet) auto
  show ?thesis using fires placed lost quiet root by blast
qed

theorem escape_to_parent_fires_iff_witness:
  "moveItem [Block ''A'' () [Block ''B'' () [], Block ''C'' () []], Block ''D'' () []]
     (map_of [(0, \<lparr>parentId = None, positionClientId = ''A''\<rparr>), (1, \<lparr>parentId = Some ''A'', positionClientId = ''B''\<rparr>), (2, \<lparr>parentId = Some ''A'', positionClientId = ''C''\<rparr>), (3, \<lparr>parentId = None, positionClientId = ''D''\<rparr>)])
     \<lparr>block = Block ''C'' () [], translate = 20, listPosition = 2, isLastChild = True, isFirstChild = False, velocity = Some 1\<rparr>
     \<lparr>tree = [Block ''A'' () [Block ''B'' () [], Block ''C'' () []], Block ''D'' () []], lastTarget = None, dropped = False, dispatched = [], timeoutSet = False\<rparr>
   = Inr \<lparr>tree = [Block ''A'' () [Block ''B'' () []], Block ''C'' () [], Block ''D'' () []],
          lastTarget = Some \<lparr>pendingClientId = ''C'', originalParent = ''A'', targetId = [],
                             targetIndex = 1\<rparr>,
          dropped = False, dispatched = [], timeoutSet = False\<rparr>
   \<and> adjacentSiblings [Block ''A'' () [Block ''B'' () []], Block ''C'' () [], Block ''D'' () []]
        ''A'' ''C''
   \<and> moveItem [Block ''A'' () [Block ''B'' () [], Block ''C'' () []], Block ''D'' () []]
       (map_of [(0, \<lparr>parentId = None, positionClientId = ''A''\<rparr>), (1, \<lparr>parentId = Some ''A'', positionClientId = ''B''\<rparr>), (2, \<lparr>parentId = Some ''A'', positionClientId = ''C''\<rparr>), (3, \<lparr>parentId = None, positionClientId = ''D''\<rparr>)])
       \<lparr>block = Block ''B'' () [], translate = 20, listPosition = 1, isLastChild = False, isFirstChild = True, velocity = Some 1\<rparr>
       \<lparr>tree = [Block ''A'' () [Block ''B'' () [], Block ''C'' () []], Block ''D'' () []], lastTarget = None, dropped = False, dispatched = [], timeoutSet = False\<rparr>
     = Inr \<lparr>tree = [Block ''A'' () [Block ''C'' () [], Block ''B'' () []], Block ''D'' () []],
          lastTarget = Some \<lparr>pendingClientId = ''B'', originalParent = ''A'', targetId = ''A'',
                             targetIndex = 1\<rparr>,
          dropped = False, dispatched = [], timeoutSet = False\<rparr>
   \<and> moveItem [Block ''A'' () [Block ''B'' () [], Block ''C'' () []], Block ''D'' () []]
       (map_of [(0, \<lparr>parentId = None, positionClientId = ''A''\<rparr>), (1, \<lparr>parentId = Some ''A'', positionClientId = ''B''\<rparr>), (2, \<lparr>parentId = Some ''A'', positionClientId = ''C''\<rparr>), (3, \<lparr>parentId = None, positionClientId = ''D''\<rparr>)])
       \<lparr>block = Block ''D'' () [], translate = 20, listPosition = 3, isLastChild = True, isFirstChild = False, velocity = Some 1\<rparr>
       \<lparr>tree = [Block ''A'' () [Block ''B'' () [], Block ''C'' () []], Block ''D'' () []], lastTarget = None, dropped = False, dispatched = [], timeoutSet = False\<rparr>
     = Inr \<lparr>tree = [Block ''A'' () [Block ''B'' () [], Block ''C'' () []], Block ''D'' () []], lastTarget = None, dropped = False, dispatched = [], timeoutSet = False\<rparr>"
proof -
  have c: "velocity \<lparr>block = Block ''C'' () [], translate = 20, listPosition = 2, isLastChild = True, isFirstChild = False, velocity = Some 1\<rparr> = Some 1" "(1::real) \<noteq> 0"
    "\<bar>translate \<lparr>block = Block ''C'' () [], translate = 20, listPosition = 2, isLastChild = True, isFirstChild = False, velocity = Some 1\<rparr>\<bar> > ITEM_HEIGHT / 2"
    "(map_of [(0, \<lparr>parentId = None, positionClientId = ''A''\<rparr>), (1, \<lparr>parentId = Some ''A'', positionClientId = ''B''\<rparr>), (2, \<lparr>parentId = Some ''A'', positionClientId = ''C''\<rparr>), (3, \<lparr>parentId = None, positionClientId = ''D''\<rparr>)])
       (listPosition \<lparr>block = Block ''C'' () [], translate = 20, listPosition = 2, isLastChild = True, isFirstChild = False, velocity = Some 1\<rparr>) = Some \<lparr>parentId = Some ''A'', positionClientId = ''C''\<rparr>"
    by (simp_all add: ITEM_HEIGHT_def)
  have b: "velocity \<lparr>block = Block ''B'' () [], translate = 20, listPosition = 1, isLastChild = False, isFirstChild = True, velocity = Some 1\<rparr> = Some 1" "(1::real) \<noteq> 0"
    "\<bar>translate \<lparr>block = Block ''B'' () [], translate = 20, listPosition = 1, isLastChild = False, isFirstChild = True, velocity = Some 1\<rparr>\<bar> > ITEM_HEIGHT / 2"
    "(map_of [(0, \<lparr>parentId = None, positionClientId = ''A''\<rparr>), (1, \<lparr>parentId = Some ''A'', positionClientId = ''B''\<rparr>), (2, \<lparr>parentId = Some ''A'', positionClientId = ''C''\<rparr>), (3, \<lparr>parentId = None, positionClientId = ''D''\<rparr>)])
       (listPosition \<lparr>block = Block ''B'' () [], translate = 20, listPosition = 1, isLastChild = False, isFirstChild = True, velocity = Some 1\<rparr>) = Some \<lparr>parentId = Some ''A'', positionClientId = ''B''\<rparr>"
    by (simp_all add: ITEM_HEIGHT_def)
  have d: "velocity \<lparr>block = Block ''D'' () [], translate = 20, listPosition = 3, isLastChild = True, isFirstChild = False, velocity = Some 1\<rparr> = Some 1" "(1::real) \<noteq> 0"
    "\<bar>translate \<lparr>block = Block ''D'' () [], translate = 20, listPosition = 3, isLastChild = True, isFirstChild = False, velocity = Some 1\<rparr>\<bar> > ITEM_HEIGHT / 2"
    "(map_of [(0, \<lparr>parentId = None, positionClientId = ''A''\<rparr>), (1, \<lparr>parentId = Some ''A'', positionClientId = ''B''\<rparr>), (2, \<lparr>parentId = Some ''A'', positionClientId = ''C''\<rparr>), (3, \<lparr>parentId = None, positionClientId = ''D''\<rparr>)])
       (listPosition \<lparr>block = Block ''D'' () [], translate = 20, listPosition = 3, isLastChild = True, isFirstChild = False, velocity = Some 1\<rparr>) = Some \<lparr>parentId = None, positionClientId = ''D''\<rparr>"
    by (simp_all add: ITEM_HEIGHT_def)
  show ?thesis
    using escape_to_parent_fires_iff[where positions = "(map_of [(0, \<lparr>parentId = None, positionClientId = ''A''\<rparr>), (1, \<lparr>parentId = Some ''A'', positionClientId = ''B''\<rparr>), (2, \<lparr>parentId = Some ''A'', positionClientId = ''C''\<rparr>), (3, \<lparr>parentId = None, positionClientId = ''D''\<rparr>)])"
        and T = "[Block ''A'' () [Block ''B'' () [], Block ''C'' () []], Block ''D'' () []]"
        and s = "\<lparr>tree = [Block ''A'' () [Block ''B'' () [], Block ''C'' () []], Block ''D'' () []], lastTarget = None, dropped = False, dispatched = [], timeoutSet = False\<rparr>", OF c]
      escape_to_parent_fires_iff[where positions = "(map_of [(0, \<lparr>parentId = None, positionClientId = ''A''\<rparr>), (1, \<lparr>parentId = Some ''A'', positionClientId = ''B''\<rparr>), (2, \<lparr>parentId = Some ''A'', positionClientId = ''C''\<rparr>), (3, \<lparr>parentId = None, positionClientId = ''D''\<rparr>)])"
        and T = "[Block ''A'' () [Block ''B'' () [], Block ''C'' () []], Block ''D'' () []]"
        and s = "\<lparr>tree = [Block ''A'' () [Block ''B'' () [], Block ''C'' () []], Block ''D'' () []], lastTarget = None, dropped = False, dispatched = [], timeoutSet = False\<rparr>", OF b]
      escape_to_parent_fires_iff[where positions = "(map_of [(0, \<lparr>parentId = None, positionClientId = ''A''\<rparr>), (1, \<lparr>parentId = Some ''A'', positionClientId = ''B''\<rparr>), (2, \<lparr>parentId = Some ''A'', positionClientId = ''C''\<rparr>), (3, \<lparr>parentId = None, positionClientId = ''D''\<rparr>)])"
        and T = "[Block ''A'' () [Block ''B'' () [], Block ''C'' () []], Block ''D'' () []]"
        and s = "\<lparr>tree = [Block ''A'' () [Block ''B'' () [], Block ''C'' () []], Block ''D'' () []], lastTarget = None, dropped = False, dispatched = [], timeoutSet = False\<rparr>", OF d]
    by (simp add: decide_def removeItemFromTree_def addItemToTree_def)
qed

text \<open>
  The entry's \<open>parentId\<close> need not be in the tree. In \<open>[A[C]]\<close> with an entry for the
  row of \<open>C\<close> that names a parent \<open>Z\<close>, dragging \<open>C\<close> down fires the escape, and the
  tree published is \<open>[A[]]\<close>: \<open>C\<close> is next to no parent, and nowhere in the tree.
\<close>

theorem escape_with_stale_parent_counterexample:
  "parentId \<lparr>parentId = Some ''Z'', positionClientId = ''C''\<rparr> = Some ''Z'' \<and> ''Z'' \<noteq> []
   \<and> moveItem [Block ''A'' () [Block ''C'' () []]]
       (map_of [(0, \<lparr>parentId = None, positionClientId = ''A''\<rparr>),
                (1, \<lparr>parentId = Some ''Z'', positionClientId = ''C''\<rparr>)])
       \<lparr>block = Block ''C'' () [], translate = 20, listPosition = 1, isLastChild = True,
        isFirstChild = True, velocity = Some 1\<rparr>
       \<lparr>tree = [Block ''A'' () [Block ''C'' () []]], lastTarget = None, dropped = False,
        dispatched = [], timeoutSet = False\<rparr>
     = Inr \<lparr>tree = [Block ''A'' () []],
            lastTarget = Some \<lparr>pendingClientId = ''C'', originalParent = ''A'', targetId = [],
                               targetIndex = - 1\<rparr>,
            dropped = False, dispatched = [], timeoutSet = False\<rparr>
   \<and> \<not> adjacentSiblings [Block ''A'' () []] ''Z'' ''C''
   \<and> ''C'' \<notin> set (treeIds [Block ''A'' () []])"
  by (simp add: moveItem_def ITEM_HEIGHT_def decide_def removeItemFromTree_def addItemToTree_def)

text \<open>
  C4. On a tick with nonzero velocity whose translation passes the threshold and which
  does not escape to the parent: when the ledger has no entry for the adjacent row in the
  drag direction, or that entry's \<open>parentId\<close> differs from the dragged row's, the state is
  left as it was (no tree published, pending placement untouched); when the adjacent
  entry has the same \<open>parentId\<close>, the tick decides with the adjacent row as the target.
\<close>

theorem sibling_swap_needs_same_parent:
  assumes "velocity args = Some v" and "v \<noteq> 0" and "\<bar>translate args\<bar> > ITEM_HEIGHT / 2"
    and "positions (listPosition args) = Some pos"
    and "\<not> (\<exists>pid. parentId pos = Some pid \<and> pid \<noteq> [] \<and>
              ((v < 0 \<and> isFirstChild args) \<or> (v > 0 \<and> isLastChild args)))"
  shows "(positions (if v > 0 then listPosition args + 1 else listPosition args - 1) = None \<longrightarrow>
            moveItem T positions args s = Inr s)
       \<and> (\<forall>tp. positions (if v > 0 then listPosition args + 1 else listPosition args - 1) = Some tp
              \<and> parentId tp \<noteq> parentId pos \<longrightarrow>
            moveItem T positions args s = Inr s)
       \<and> (\<forall>tp. positions (if v > 0 then listPosition args + 1 else listPosition args - 1) = Some tp
              \<and> parentId tp = parentId pos \<longrightarrow>
            moveItem T positions args s =
              Inr (decide T (block args) (positionClientId tp) (v > 0) s))"
  using moveItem_swap[where positions = positions and T = T and s = s, OF assms]
  by auto

theorem sibling_swap_needs_same_parent_witness:
  "(map_of [(0, \<lparr>parentId = None, positionClientId = ''A''\<rparr>), (1, \<lparr>parentId = Some ''A'', positionClientId = ''B''\<rparr>), (2, \<lparr>parentId = None, positionClientId = ''C''\<rparr>)]) (1::int) = Some \<lparr>parentId = Some ''A'', positionClientId = ''B''\<rparr>
   \<and> moveItem [Block ''A'' () [Block ''B'' () []], Block ''C'' () []]
       (map_of [(0, \<lparr>parentId = None, positionClientId = ''A''\<rparr>), (1, \<lparr>parentId = Some ''A'', positionClientId = ''B''\<rparr>), (2, \<lparr>parentId = None, positionClientId = ''C''\<rparr>)])
       \<lparr>block = Block ''C'' () [], translate = - 20, listPosition = 2, isLastChild = True, isFirstChild = False, velocity = Some (- 1)\<rparr>
       \<lparr>tree = [Block ''A'' () [Block ''B'' () []], Block ''C'' () []], lastTarget = None, dropped = False, dispatched = [], timeoutSet = False\<rparr>
     = Inr \<lparr>tree = [Block ''A'' () [Block ''B'' () []], Block ''C'' () []], lastTarget = None, dropped = False, dispatched = [], timeoutSet = False\<rparr>"
proof -
  have h: "velocity \<lparr>block = Block ''C'' () [], translate = - 20, listPosition = 2, isLastChild = True, isFirstChild = False, velocity = Some (- 1)\<rparr> = Some (- 1)" "(- 1::real) \<noteq> 0"
    "\<bar>translate \<lparr>block = Block ''C'' () [], translate = - 20, listPosition = 2, isLastChild = True, isFirstChild = False, velocity = Some (- 1)\<rparr>\<bar> > ITEM_HEIGHT / 2"
    "(map_of [(0, \<lparr>parentId = None, positionClientId = ''A''\<rparr>), (1, \<lparr>parentId = Some ''A'', positionClientId = ''B''\<rparr>), (2, \<lparr>parentId = None, positionClientId = ''C''\<rparr>)])
       (listPosition \<lparr>block = Block ''C'' () [], translate = - 20, listPosition = 2, isLastChild = True, isFirstChild = False, velocity = Some (- 1)\<rparr>) = Some \<lparr>parentId = None, positionClientId = ''C''\<rparr>"
    "\<not> (\<exists>pid. parentId \<lparr>parentId = None, positionClientId = ''C''\<rparr> = Some pid \<and> pid \<noteq> [] \<and>
          (((- 1::real) < 0 \<and> isFirstChild \<lparr>block = Block ''C'' () [], translate = - 20, listPosition = 2, isLastChild = True, isFirstChild = False, velocity = Some (- 1)\<rparr>) \<or>
           ((- 1::real) > 0 \<and> isLastChild \<lparr>block = Block ''C'' () [], translate = - 20, listPosition = 2, isLastChild = True, isFirstChild = False, velocity = Some (- 1)\<rparr>)))"
    by (simp_all add: ITEM_HEIGHT_def)
  show ?thesis
    using sibling_swap_needs_same_parent[where positions = "(map_of [(0, \<lparr>parentId = None, positionClientId = ''A''\<rparr>), (1, \<lparr>parentId = Some ''A'', positionClientId = ''B''\<rparr>), (2, \<lparr>parentId = None, positionClientId = ''C''\<rparr>)])"
        and T = "[Block ''A'' () [Block ''B'' () []], Block ''C'' () []]"
        and s = "\<lparr>tree = [Block ''A'' () [Block ''B'' () []], Block ''C'' () []], lastTarget = None, dropped = False, dispatched = [], timeoutSet = False\<rparr>", OF h]
    by simp
qed

text \<open>
  C5, as the code has it. The threshold is half of \<open>ITEM_HEIGHT\<close>, that is 18: on a tick
  whose absolute translation is at or below it, \<open>moveItem\<close> leaves the state as it was,
  whatever the velocity and the ledger.
\<close>

theorem below_half_row_no_decision:
  "\<bar>translate args\<bar> \<le> ITEM_HEIGHT / 2 \<Longrightarrow>
   ITEM_HEIGHT / 2 = 18 \<and> moveItem T positions args s = Inr s"
  by (simp add: moveItem_def Let_def ITEM_HEIGHT_def)

theorem below_half_row_no_decision_witness:
  "\<bar>translate \<lparr>block = Block ''A'' () [], translate = 18, listPosition = 0, isLastChild = False, isFirstChild = True, velocity = Some 1\<rparr>\<bar> \<le> ITEM_HEIGHT / 2
   \<and> moveItem [Block ''A'' () [], Block ''B'' () []]
       (map_of [(0, \<lparr>parentId = None, positionClientId = ''A''\<rparr>), (1, \<lparr>parentId = None, positionClientId = ''B''\<rparr>)])
       \<lparr>block = Block ''A'' () [], translate = 18, listPosition = 0, isLastChild = False, isFirstChild = True, velocity = Some 1\<rparr>
       \<lparr>tree = [Block ''A'' () [], Block ''B'' () []], lastTarget = None, dropped = False, dispatched = [], timeoutSet = False\<rparr>
     = Inr \<lparr>tree = [Block ''A'' () [], Block ''B'' () []], lastTarget = None, dropped = False, dispatched = [], timeoutSet = False\<rparr>"
proof -
  have h: "\<bar>translate \<lparr>block = Block ''A'' () [], translate = 18, listPosition = 0, isLastChild = False, isFirstChild = True, velocity = Some 1\<rparr>\<bar> \<le> ITEM_HEIGHT / 2"
    by (simp add: ITEM_HEIGHT_def)
  show ?thesis
    using h below_half_row_no_decision[OF h, of "[Block ''A'' () [], Block ''B'' () []]"
        "(map_of [(0, \<lparr>parentId = None, positionClientId = ''A''\<rparr>), (1, \<lparr>parentId = None, positionClientId = ''B''\<rparr>)])"
        "\<lparr>tree = [Block ''A'' () [], Block ''B'' () []], lastTarget = None, dropped = False, dispatched = [], timeoutSet = False\<rparr>"]
    by simp
qed

text \<open>
  A translation of 20 is below one row height (36), yet the tick decides: dragging \<open>A\<close>
  down in \<open>[A, B]\<close> publishes \<open>[B, A]\<close> and records a pending placement.
\<close>

theorem decision_below_row_height_counterexample:
  "\<bar>translate \<lparr>block = Block ''A'' () [], translate = 20, listPosition = 0, isLastChild = False, isFirstChild = True, velocity = Some 1\<rparr>\<bar> \<le> ITEM_HEIGHT
   \<and> velocity \<lparr>block = Block ''A'' () [], translate = 20, listPosition = 0, isLastChild = False, isFirstChild = True, velocity = Some 1\<rparr> \<noteq> Some 0
   \<and> moveItem [Block ''A'' () [], Block ''B'' () []]
       (map_of [(0, \<lparr>parentId = None, positionClientId = ''A''\<rparr>), (1, \<lparr>parentId = None, positionClientId = ''B''\<rparr>)])
       \<lparr>block = Block ''A'' () [], translate = 20, listPosition = 0, isLastChild = False, isFirstChild = True, velocity = Some 1\<rparr>
       \<lparr>tree = [Block ''A'' () [], Block ''B'' () []], lastTarget = None, dropped = False, dispatched = [], timeoutSet = False\<rparr>
     = Inr \<lparr>tree = [Block ''B'' () [], Block ''A'' () []],
            lastTarget = Some \<lparr>pendingClientId = ''A'', originalParent = [], targetId = [],
                               targetIndex = 1\<rparr>,
            dropped = False, dispatched = [], timeoutSet = False\<rparr>"
  by (simp add: moveItem_def ITEM_HEIGHT_def decide_def removeItemFromTree_def addItemToTree_def)

section \<open>Committing the drop\<close>

text \<open>
  C7. Without a pending placement \<open>dropItem\<close> changes nothing and dispatches nothing.
  With one, it dispatches exactly one \<open>moveBlocksToPosition\<close> whose arguments are the four
  fields of the pending placement, clears the pending placement and leaves the tree alone;
  a second \<open>dropItem\<close> right after changes nothing. \<open>dropItem\<close> is not given the tree:
  after a decision of \<open>moveItem\<close>, the command carries the parent returned by
  \<open>removeItemFromTree\<close> and the target parent and index returned by \<open>addItemToTree\<close> at
  decision time.
\<close>

theorem dropItem_commits_pending:
  "(lastTarget s = None \<longrightarrow> dropItem s = s)
   \<and> (\<forall>t. lastTarget s = Some t \<longrightarrow>
         dispatched (dropItem s) = dispatched s @
           [MoveBlocksToPosition [pendingClientId t] (originalParent t) (targetId t) (targetIndex t)]
         \<and> lastTarget (dropItem s) = None \<and> tree (dropItem s) = tree s)
   \<and> dropItem (dropItem s) = dropItem s
   \<and> dispatched (dropItem (decide T blk target after s)) = dispatched s @
         [MoveBlocksToPosition [clientId blk]
            (snd (removeItemFromTree T (clientId blk) []))
            (fst (snd (addItemToTree (fst (removeItemFromTree T (clientId blk) [])) target blk after [])))
            (snd (snd (addItemToTree (fst (removeItemFromTree T (clientId blk) [])) target blk after [])))]"
  by (auto simp: dropItem_def decide_def split: option.splits prod.splits)


theorem dropItem_commits_pending_witness:
  "dropItem \<lparr>tree = [Block ''A'' () [Block ''B'' () []], Block ''C'' () [], Block ''D'' () []], lastTarget = Some \<lparr>pendingClientId = ''C'', originalParent = ''A'', targetId = [], targetIndex = 1\<rparr>, dropped = False, dispatched = [], timeoutSet = False\<rparr>
     = \<lparr>tree = [Block ''A'' () [Block ''B'' () []], Block ''C'' () [], Block ''D'' () []], lastTarget = None, dropped = True, dispatched = [MoveBlocksToPosition [''C''] ''A'' [] 1], timeoutSet = True\<rparr>
   \<and> dropItem (dropItem \<lparr>tree = [Block ''A'' () [Block ''B'' () []], Block ''C'' () [], Block ''D'' () []], lastTarget = Some \<lparr>pendingClientId = ''C'', originalParent = ''A'', targetId = [], targetIndex = 1\<rparr>, dropped = False, dispatched = [], timeoutSet = False\<rparr>)
     = \<lparr>tree = [Block ''A'' () [Block ''B'' () []], Block ''C'' () [], Block ''D'' () []], lastTarget = None, dropped = True, dispatched = [MoveBlocksToPosition [''C''] ''A'' [] 1], timeoutSet = True\<rparr>
   \<and> dropItem \<lparr>tree = [Block ''A'' () [], Block ''B'' () []], lastTarget = None, dropped = False, dispatched = [], timeoutSet = False\<rparr>
     = \<lparr>tree = [Block ''A'' () [], Block ''B'' () []], lastTarget = None, dropped = False, dispatched = [], timeoutSet = False\<rparr>"
  using dropItem_commits_pending[of "\<lparr>tree = [Block ''A'' () [Block ''B'' () []], Block ''C'' () [], Block ''D'' () []], lastTarget = Some \<lparr>pendingClientId = ''C'', originalParent = ''A'', targetId = [], targetIndex = 1\<rparr>, dropped = False, dispatched = [], timeoutSet = False\<rparr>" "[]" "Block ''A'' () []" "[]" True]
    dropItem_commits_pending[of "\<lparr>tree = [Block ''A'' () [], Block ''B'' () []], lastTarget = None, dropped = False, dispatched = [], timeoutSet = False\<rparr>" "[]" "Block ''A'' () []" "[]" True]
  by (simp add: dropItem_def)

section \<open>Row numbering and expansion state\<close>

text \<open>
  C8. For a block whose identity maps to collapsed, \<open>countBlocks\<close> is 1 whatever the
  block contains. So in a branch the row after a collapsed block gets the block's own row
  number plus one, and the row numbers of the whole branch are those it would have with a
  leaf in the block's place. The same holds one level up, where the count runs through
  \<open>countReducer\<close>: the reduce over the siblings, the parent's \<open>countBlocks\<close> and the row
  numbers of the parent's branch (so the row that follows a collapsed last child) are
  those with a leaf in the block's place. At any depth: the reduce and the row numbers of
  a branch are unchanged when every collapsed block in it is replaced by a leaf.
\<close>

theorem collapsed_branch_counts_one:
  assumes "expandedState (clientId b) = Some False"
  shows "countBlocks b expandedState = 1
       \<and> listPositions expandedState lp (pre @ b # nxt # post) ! (length pre + 1)
           = listPositions expandedState lp (pre @ b # nxt # post) ! (length pre) + 1
       \<and> listPositions expandedState lp (pre @ b # post)
           = listPositions expandedState lp (pre @ Block c a [] # post)
       \<and> reduceCountReducer expandedState cnt (pre @ b # post)
           = reduceCountReducer expandedState cnt (pre @ Block c a [] # post)
       \<and> countBlocks (Block p ap (pre @ b # post)) expandedState
           = countBlocks (Block p ap (pre @ Block c a [] # post)) expandedState
       \<and> listPositions expandedState lp (before @ Block p ap (pre @ b # post) # after)
           = listPositions expandedState lp (before @ Block p ap (pre @ Block c a [] # post) # after)
       \<and> reduceCountReducer expandedState cnt xs
           = reduceCountReducer expandedState cnt (collapsedAsLeaves expandedState xs)
       \<and> listPositions expandedState lp xs
           = listPositions expandedState lp (collapsedAsLeaves expandedState xs)"
proof (intro conjI)
  show one: "countBlocks b expandedState = 1"
    using assms by (rule countBlocks_collapsed)
  show "listPositions expandedState lp (pre @ b # nxt # post) ! (length pre + 1)
           = listPositions expandedState lp (pre @ b # nxt # post) ! (length pre) + 1"
    using one by (simp add: listPositions_nth)
  show "listPositions expandedState lp (pre @ b # post)
           = listPositions expandedState lp (pre @ Block c a [] # post)"
    using one by (intro listPositions_cong) simp
  show red: "reduceCountReducer expandedState cnt (pre @ b # post)
           = reduceCountReducer expandedState cnt (pre @ Block c a [] # post)" for cnt
    using assms by (rule reduce_collapsed_leaf)
  show par: "countBlocks (Block p ap (pre @ b # post)) expandedState
           = countBlocks (Block p ap (pre @ Block c a [] # post)) expandedState"
    using red[of 0] by simp
  show "listPositions expandedState lp (before @ Block p ap (pre @ b # post) # after)
           = listPositions expandedState lp (before @ Block p ap (pre @ Block c a [] # post) # after)"
    using par by (intro listPositions_cong) simp
  show "reduceCountReducer expandedState cnt xs
           = reduceCountReducer expandedState cnt (collapsedAsLeaves expandedState xs)"
    by (rule count_collapsedAsLeaves(2))
  show "listPositions expandedState lp xs
           = listPositions expandedState lp (collapsedAsLeaves expandedState xs)"
    by (intro listPositions_cong) (simp add: map_count_collapsedAsLeaves)
qed

theorem collapsed_branch_counts_one_witness:
  "countBlocks (Block ''A'' () [Block ''B'' () [], Block ''C'' () []]) [''A'' \<mapsto> False] = 1
   \<and> countBlocks (Block ''A'' () [Block ''B'' () [], Block ''C'' () []]) Map.empty = 3
   \<and> listPositions [''A'' \<mapsto> False] 0
        [Block ''A'' () [Block ''B'' () [], Block ''C'' () []], Block ''D'' () []] = [0, 1]
   \<and> listPositions [''A'' \<mapsto> False] 0 [Block ''L'' () [], Block ''D'' () []] = [0, 1]
   \<and> listPositions Map.empty 0
        [Block ''A'' () [Block ''B'' () [], Block ''C'' () []], Block ''D'' () []] = [0, 3]
   \<and> countBlocks (Block ''P'' () [Block ''A'' () [Block ''B'' () [], Block ''C'' () []]])
        [''A'' \<mapsto> False] = 2
   \<and> listPositions [''A'' \<mapsto> False] 0
        [Block ''P'' () [Block ''A'' () [Block ''B'' () [], Block ''C'' () []]], Block ''D'' () []]
      = [0, 2]
   \<and> collapsedAsLeaves [''A'' \<mapsto> False]
        [Block ''P'' () [Block ''A'' () [Block ''B'' () [], Block ''C'' () []]], Block ''D'' () []]
      = [Block ''P'' () [Block ''A'' () []], Block ''D'' () []]"
  using collapsed_branch_counts_one[of "[''A'' \<mapsto> False]"
      "Block ''A'' () [Block ''B'' () [], Block ''C'' () []]" 0 "[]" "Block ''D'' () []" "[]"
      "''L''" "()" 0 "''P''" "()" "[]" "[Block ''D'' () []]"
      "[Block ''P'' () [Block ''A'' () [Block ''B'' () [], Block ''C'' () []]], Block ''D'' () []]"]
  by (simp add: listPositions_def isExpandedOf_def)

text \<open>
  C9. The reducer \<open>expanded\<close>: an expand action sets the entry of its identity to true, a
  collapse action sets it to false, neither touches the entry of another identity, and
  any other action returns the state. Over any sequence of actions no entry is removed,
  an identity no action of the sequence names keeps its entry, and the last action for an
  identity decides its entry. An identity without an entry reads as expanded: the row's
  \<open>isExpanded\<close> is true, \<open>countBlocks\<close> counts the rows of its inner blocks, and
  \<open>countReducer\<close> descends into it when it has inner blocks.
\<close>

theorem expanded_reducer_transitions:
  "expanded st (Expand cid) cid = Some True
   \<and> expanded st (Collapse cid) cid = Some False
   \<and> (\<forall>other. other \<noteq> cid \<longrightarrow>
         expanded st (Expand cid) other = st other \<and> expanded st (Collapse cid) other = st other)
   \<and> expanded st Other = st
   \<and> dom st \<subseteq> dom (foldl expanded st acts)
   \<and> (\<forall>other. Expand other \<notin> set acts \<and> Collapse other \<notin> set acts \<longrightarrow>
         foldl expanded st acts other = st other)
   \<and> foldl expanded st (acts @ [Expand cid]) cid = Some True
   \<and> foldl expanded st (acts @ [Collapse cid]) cid = Some False
   \<and> (st cid = None \<longrightarrow>
         rowIsExpanded True st cid = Some True
         \<and> countBlocks (Block cid a inner) st = 1 + reduceCountReducer st 0 inner
         \<and> reduceCountReducer st cnt (Block cid a inner # rest) =
             reduceCountReducer st
               (if length inner > 0 then cnt + countBlocks (Block cid a inner) st else cnt + 1)
               rest)"
  by (simp add: dom_foldl_expanded foldl_expanded_other isExpandedOf_def rowIsExpanded_def)


theorem expanded_reducer_transitions_witness:
  "foldl expanded Map.empty [Collapse ''A'', Expand ''B'', Expand ''A'', Collapse ''B'']
     = [''A'' \<mapsto> True, ''B'' \<mapsto> False]
   \<and> dom [''C'' \<mapsto> False]
       \<subseteq> dom (foldl expanded [''C'' \<mapsto> False] [Collapse ''A'', Expand ''B'', Other])
   \<and> foldl expanded [''C'' \<mapsto> False] [Collapse ''A'', Expand ''B'', Other] ''C'' = Some False
   \<and> countBlocks (Block ''Z'' () [Block ''B'' () []]) [''C'' \<mapsto> False] = 2"
  using expanded_reducer_transitions[of Map.empty "''A''"
      "[Collapse ''A'', Expand ''B'', Expand ''A'', Collapse ''B'']" "()" "[]" 0 "[]"]
    expanded_reducer_transitions[of "[''C'' \<mapsto> False]" "''Z''"
      "[Collapse ''A'', Expand ''B'', Other]" "()" "[Block ''B'' () []]" 0 "[]"]
  by (auto simp: isExpandedOf_def fun_eq_iff)

end
